theory Spec2Isabelle
  imports Complex_Main "HOL-Library.AList" "HOL-Library.Multiset" "HOL-Library.Log_Nat"
begin

section \<open>The trading account of accounts.py\<close>

text \<open>
  Money and share quantities are Python floats, that is IEEE 754 binary64 numbers: the
  model rounds every sum and product to the nearest double (ties to even), with overflow
  to an infinity and with NaN. Amounts and quantities are passed as floats, as the
  signatures annotate them, so that \<open>float(x)\<close> returns its argument. A Python \<open>datetime\<close> is either naive (no \<open>tzinfo\<close>) or aware;
  an aware one is an instant on the time line (an integer number of ticks), a naive one a
  wall-clock reading that \<open>replace(tzinfo=timezone.utc)\<close> turns into the instant with the
  same reading. Ordering a naive against an aware \<open>datetime\<close> raises \<open>TypeError\<close> in
  Python. The clock \<open>datetime.utcnow()\<close> is the parameter \<open>now\<close> of every operation that
  reads it.
\<close>

subsection \<open>Python floats\<close>

text \<open>
  A float is a finite number, an infinity or NaN. A finite double is modelled by its
  rational value; the two zeros are one value (they compare equal and add alike, and
  nothing here divides). The operations below round their results, so every value they
  produce is a double; what is proved for all rationals holds for the doubles among them.
\<close>

datatype float = Num rat | PosInf | NegInf | NaN

text \<open>The exponent of the leading bit of a positive rational: \<open>2 powi ilog2 r \<le> r < 2 powi (ilog2 r + 1)\<close>.\<close>

definition ilog2 :: "rat \<Rightarrow> int" where
  "ilog2 r = (if 1 \<le> r then bitlen \<lfloor>r\<rfloor> - 1 else - bitlen (\<lceil>1 / r\<rceil> - 1))"

text \<open>Rounding to the nearest integer, a tie going to the even neighbour.\<close>

definition rne :: "rat \<Rightarrow> int" where
  "rne k = (let f = \<lfloor>k\<rfloor>; d = k - of_int f
            in if d < 1 / 2 then f
               else if 1 / 2 < d then f + 1
               else if even f then f else f + 1)"

text \<open>The exponent of the unit in the last place: 53 significant bits, and no finer than
  \<open>2 powi - 1074\<close> (the subnormal spacing).\<close>

definition qexp :: "rat \<Rightarrow> int" where
  "qexp r = max (ilog2 r - 52) (- 1074)"

definition round_pos :: "rat \<Rightarrow> rat" where
  "round_pos r = of_int (rne (r / 2 powi qexp r)) * 2 powi qexp r"

definition round_nearest :: "rat \<Rightarrow> rat" where
  "round_nearest r = (if r = 0 then 0 else if 0 < r then round_pos r else - round_pos (- r))"

text \<open>What rounds to \<open>2 ^ 1024\<close> or beyond in magnitude becomes an infinity.\<close>

definition overflow :: rat where
  "overflow = 2 ^ 1024"

definition round_float :: "rat \<Rightarrow> float" where
  "round_float r =
     (let v = round_nearest r
      in if overflow \<le> v then PosInf else if v \<le> - overflow then NegInf else Num v)"

text \<open>\<open>-x\<close>, \<open>x + y\<close>, \<open>x - y\<close> and \<open>x * y\<close>.\<close>

fun fneg :: "float \<Rightarrow> float" where
  "fneg (Num x) = Num (- x)"
| "fneg PosInf = NegInf"
| "fneg NegInf = PosInf"
| "fneg NaN = NaN"

fun fadd :: "float \<Rightarrow> float \<Rightarrow> float" where
  "fadd NaN y = NaN"
| "fadd x NaN = NaN"
| "fadd (Num x) (Num y) = round_float (x + y)"
| "fadd PosInf NegInf = NaN"
| "fadd NegInf PosInf = NaN"
| "fadd PosInf y = PosInf"
| "fadd x PosInf = PosInf"
| "fadd NegInf y = NegInf"
| "fadd x NegInf = NegInf"

definition fsub :: "float \<Rightarrow> float \<Rightarrow> float" where
  "fsub x y = fadd x (fneg y)"

fun fmul :: "float \<Rightarrow> float \<Rightarrow> float" where
  "fmul NaN y = NaN"
| "fmul x NaN = NaN"
| "fmul (Num x) (Num y) = round_float (x * y)"
| "fmul PosInf (Num y) = (if y = 0 then NaN else if 0 < y then PosInf else NegInf)"
| "fmul NegInf (Num y) = (if y = 0 then NaN else if 0 < y then NegInf else PosInf)"
| "fmul (Num x) PosInf = (if x = 0 then NaN else if 0 < x then PosInf else NegInf)"
| "fmul (Num x) NegInf = (if x = 0 then NaN else if 0 < x then NegInf else PosInf)"
| "fmul PosInf PosInf = PosInf"
| "fmul PosInf NegInf = NegInf"
| "fmul NegInf PosInf = NegInf"
| "fmul NegInf NegInf = PosInf"

text \<open>\<open>x < y\<close>, \<open>x == y\<close> and \<open>x <= y\<close>: every comparison with NaN is false.\<close>

fun flt :: "float \<Rightarrow> float \<Rightarrow> bool" where
  "flt NaN y = False"
| "flt x NaN = False"
| "flt (Num x) (Num y) = (x < y)"
| "flt x NegInf = False"
| "flt PosInf y = False"
| "flt NegInf y = True"
| "flt x PosInf = True"

fun feq :: "float \<Rightarrow> float \<Rightarrow> bool" where
  "feq NaN y = False"
| "feq x NaN = False"
| "feq x y = (x = y)"

definition fle :: "float \<Rightarrow> float \<Rightarrow> bool" where
  "fle x y \<longleftrightarrow> flt x y \<or> feq x y"

subsection \<open>Errors and data\<close>

datatype error =
    ValueError
  | InsufficientFundsError
  | InsufficientHoldingsError
  | InvalidSymbolError
  | InvalidQuantityError
  | AttributeError
  | TypeError

datatype datetime = Naive int | Aware int

datatype tx_type = Deposit | Withdraw | Buy | Sell

record transaction =
  timestamp :: int
  type :: tx_type
  symbol :: "string option"
  quantity :: float
  price_per_share :: "float option"
  total_amount :: float

record account =
  initial_deposit :: float
  transactions :: "transaction list"

text \<open>A value bound to a Python name in \<open>sell\<close>: a float or a dictionary.\<close>

datatype pyval = Float float | Dict "(string \<times> float) list"

subsection \<open>Helpers\<close>

text \<open>\<open>if ts.tzinfo is None: ts = ts.replace(tzinfo=timezone.utc)\<close>, then the instant.\<close>

fun to_utc :: "datetime \<Rightarrow> int" where
  "to_utc (Naive r) = r"
| "to_utc (Aware i) = i"

text \<open>\<open>timestamp or datetime.utcnow().replace(tzinfo=timezone.utc)\<close>: a \<open>datetime\<close> is
  always truthy, so the clock is read exactly when no timestamp was passed.\<close>

fun or_now :: "datetime option \<Rightarrow> int \<Rightarrow> datetime" where
  "or_now None now = Aware now"
| "or_now (Some t) now = t"

text \<open>\<open>a < b\<close> with \<open>a\<close> a stored (aware) timestamp and \<open>b\<close> a caller's \<open>datetime\<close>.\<close>

fun aware_less :: "int \<Rightarrow> datetime \<Rightarrow> error + bool" where
  "aware_less a (Aware b) = Inr (a < b)"
| "aware_less a (Naive b) = Inl TypeError"

fun aware_greater :: "int \<Rightarrow> datetime \<Rightarrow> error + bool" where
  "aware_greater a (Aware b) = Inr (a > b)"
| "aware_greater a (Naive b) = Inl TypeError"

text \<open>\<open>obj.get(key, default)\<close>: a dictionary method; a float has no such attribute.\<close>

fun get_method :: "pyval \<Rightarrow> string \<Rightarrow> float \<Rightarrow> error + float" where
  "get_method (Dict d) k dflt = Inr (case map_of d k of None \<Rightarrow> dflt | Some v \<Rightarrow> v)"
| "get_method (Float x) k dflt = Inl AttributeError"

definition prices :: "(string \<times> float) list" where
  "prices = [(''AAPL'', Num 150), (''TSLA'', Num 800), (''GOOGL'', Num 2800)]"

definition get_share_price :: "string \<Rightarrow> error + float" where
  "get_share_price symb =
     (case map_of prices symb of
        None \<Rightarrow> Inl InvalidSymbolError
      | Some p \<Rightarrow> Inr p)"

subsection \<open>Recording and replaying\<close>

definition record_transaction ::
  "account \<Rightarrow> datetime \<Rightarrow> tx_type \<Rightarrow> string option \<Rightarrow> float \<Rightarrow> float option \<Rightarrow> float
    \<Rightarrow> account"
where
  "record_transaction a ts ty symb qty pps amt =
     a\<lparr>transactions := transactions a @
        [\<lparr>timestamp = to_utc ts, type = ty, symbol = symb, quantity = qty,
          price_per_share = pps, total_amount = amt\<rparr>]\<rparr>"

text \<open>\<open>tx.type in ("buy", "sell") and tx.symbol\<close>: the symbol is present and not empty.\<close>

definition moves_shares :: "transaction \<Rightarrow> bool" where
  "moves_shares tx \<longleftrightarrow>
     (type tx = Buy \<or> type tx = Sell) \<and>
     (case symbol tx of None \<Rightarrow> False | Some s \<Rightarrow> s \<noteq> [])"

definition bump :: "transaction \<Rightarrow> (string \<times> float) list \<Rightarrow> (string \<times> float) list" where
  "bump tx hs =
     (let s = the (symbol tx)
      in AList.update s
           (fadd (case map_of hs s of None \<Rightarrow> Num 0 | Some q \<Rightarrow> q) (quantity tx)) hs)"

text \<open>The loop of \<open>_apply_transactions_up_to\<close> over the sorted log, with its \<open>break\<close>.\<close>

fun replay :: "int \<Rightarrow> transaction list \<Rightarrow> float \<Rightarrow> (string \<times> float) list
    \<Rightarrow> float \<times> (string \<times> float) list" where
  "replay up_to [] cash hs = (cash, hs)"
| "replay up_to (tx # txs) cash hs =
     (if timestamp tx > up_to then (cash, hs)
      else replay up_to txs (fadd cash (total_amount tx))
             (if moves_shares tx then bump tx hs else hs))"

definition apply_transactions_up_to ::
  "account \<Rightarrow> datetime \<Rightarrow> float \<times> (string \<times> float) list"
where
  "apply_transactions_up_to a up_to =
     replay (to_utc up_to) (sort_key timestamp (transactions a)) (Num 0) []"

text \<open>\<open>max(tx.timestamp for tx in self._transactions)\<close>; \<open>max\<close> of nothing raises.\<close>

definition latest_timestamp :: "account \<Rightarrow> error + datetime" where
  "latest_timestamp a =
     (case transactions a of
        [] \<Rightarrow> Inl ValueError
      | tx # txs \<Rightarrow> Inr (Aware (fold (\<lambda>t m. max m (timestamp t)) txs (timestamp tx))))"

text \<open>\<open>as_of or self._latest_timestamp()\<close>.\<close>

definition or_latest :: "account \<Rightarrow> datetime option \<Rightarrow> error + datetime" where
  "or_latest a as_of = (case as_of of Some t \<Rightarrow> Inr t | None \<Rightarrow> latest_timestamp a)"

subsection \<open>Construction and the mutating operations\<close>

text \<open>
  A mutating method returns what the call returned or raised, together with the account
  as the call left it, so that a write made before a raise would show.
\<close>

definition init :: "int \<Rightarrow> float \<Rightarrow> error + account" where
  "init now initial =
     (if fle initial (Num 0) then Inl ValueError
      else Inr (record_transaction \<lparr>initial_deposit = initial, transactions = []\<rparr>
                  (Aware now) Deposit None (Num 0) None initial))"

definition deposit :: "account \<Rightarrow> int \<Rightarrow> float \<Rightarrow> datetime option \<Rightarrow> (error + unit) \<times> account" where
  "deposit a now amount ts_opt =
     (if fle amount (Num 0) then (Inl ValueError, a)
      else let ts = or_now ts_opt now
           in (Inr (), record_transaction a ts Deposit None (Num 0) None amount))"

text \<open>The first definitions of \<open>withdraw\<close>, \<open>buy\<close> and \<open>sell\<close> (lines 99 to 166), which the
  class body later rebinds.\<close>

definition withdraw_first :: "account \<Rightarrow> int \<Rightarrow> float \<Rightarrow> datetime option \<Rightarrow> (error + unit) \<times> account" where
  "withdraw_first a now amount ts_opt =
     (if fle amount (Num 0) then (Inl ValueError, a)
      else case (case ts_opt of None \<Rightarrow> latest_timestamp a | Some t \<Rightarrow> Inr t) of
        Inl e \<Rightarrow> (Inl e, a)
      | Inr up_to \<Rightarrow>
          let (cash, _) = apply_transactions_up_to a up_to
          in if flt cash amount then (Inl InsufficientFundsError, a)
             else let ts = or_now ts_opt now
                  in (Inr (), record_transaction a ts Withdraw None (Num 0) None (fneg amount)))"

definition buy_first :: "account \<Rightarrow> int \<Rightarrow> string \<Rightarrow> float \<Rightarrow> datetime option
    \<Rightarrow> (error + unit) \<times> account" where
  "buy_first a now symb qty ts_opt =
     (if fle qty (Num 0) then (Inl InvalidQuantityError, a)
      else case get_share_price symb of
        Inl e \<Rightarrow> (Inl e, a)
      | Inr price \<Rightarrow>
          let cost = fmul price qty
          in (case (case ts_opt of None \<Rightarrow> latest_timestamp a | Some t \<Rightarrow> Inr t) of
                Inl e \<Rightarrow> (Inl e, a)
              | Inr up_to \<Rightarrow>
                  let (cash, hs) = apply_transactions_up_to a up_to
                  in if flt cash cost then (Inl InsufficientFundsError, a)
                     else let ts = or_now ts_opt now
                          in (Inr (), record_transaction a ts Buy (Some symb) qty (Some price)
                                        (fneg cost))))"

definition sell_first :: "account \<Rightarrow> int \<Rightarrow> string \<Rightarrow> float \<Rightarrow> datetime option
    \<Rightarrow> (error + unit) \<times> account" where
  "sell_first a now symb qty ts_opt =
     (if fle qty (Num 0) then (Inl InvalidQuantityError, a)
      else let ts = or_now ts_opt now;
               (cash, hs) = apply_transactions_up_to a ts
           in case get_method (Dict hs) symb (Num 0) of
                Inl e \<Rightarrow> (Inl e, a)
              | Inr current_qty \<Rightarrow>
                  if flt current_qty qty then (Inl InsufficientHoldingsError, a)
                  else (case get_share_price symb of
                          Inl e \<Rightarrow> (Inl e, a)
                        | Inr price \<Rightarrow>
                            let proceeds = fmul price qty
                            in (Inr (), record_transaction a ts Sell (Some symb) (fneg qty)
                                          (Some price) proceeds)))"

text \<open>The definitions in force (lines 231 to 295).\<close>

definition withdraw :: "account \<Rightarrow> int \<Rightarrow> float \<Rightarrow> datetime option \<Rightarrow> (error + unit) \<times> account" where
  "withdraw a now amount ts_opt =
     (if fle amount (Num 0) then (Inl ValueError, a)
      else let ts = or_now ts_opt now;
               (cash_before, _) = apply_transactions_up_to a ts
           in if flt cash_before amount then (Inl InsufficientFundsError, a)
              else (Inr (), record_transaction a ts Withdraw None (Num 0) None (fneg amount)))"

definition buy :: "account \<Rightarrow> int \<Rightarrow> string \<Rightarrow> float \<Rightarrow> datetime option
    \<Rightarrow> (error + unit) \<times> account" where
  "buy a now symb qty ts_opt =
     (if fle qty (Num 0) then (Inl InvalidQuantityError, a)
      else let ts = or_now ts_opt now
           in case get_share_price symb of
                Inl e \<Rightarrow> (Inl e, a)
              | Inr price \<Rightarrow>
                  let cost = fmul price qty;
                      (cash_before, _) = apply_transactions_up_to a ts
                  in if flt cash_before cost then (Inl InsufficientFundsError, a)
                     else (Inr (), record_transaction a ts Buy (Some symb) qty (Some price)
                                  (fneg cost)))"

text \<open>In \<open>sell\<close> the pair returned by the replay is unpacked as
  \<open>holdings_before, _ = ...\<close>: the name \<open>holdings_before\<close> is bound to the first
  component, the cash (a float).\<close>

definition sell :: "account \<Rightarrow> int \<Rightarrow> string \<Rightarrow> float \<Rightarrow> datetime option
    \<Rightarrow> (error + unit) \<times> account" where
  "sell a now symb qty ts_opt =
     (if fle qty (Num 0) then (Inl InvalidQuantityError, a)
      else let ts = or_now ts_opt now;
               (first_component, _) = apply_transactions_up_to a ts;
               holdings_before = Float first_component
           in case get_method holdings_before symb (Num 0) of
                Inl e \<Rightarrow> (Inl e, a)
              | Inr current_qty \<Rightarrow>
                  if flt current_qty qty then (Inl InsufficientHoldingsError, a)
                  else (case get_share_price symb of
                          Inl e \<Rightarrow> (Inl e, a)
                        | Inr price \<Rightarrow>
                            let proceeds = fmul price qty
                            in (Inr (), record_transaction a ts Sell (Some symb) (fneg qty)
                                          (Some price) proceeds)))"

subsection \<open>Queries\<close>

text \<open>
  A query returns its result or the error it raised, together with the account as the
  call left it. None of them assigns to the account: \<open>sorted\<close> builds a new list.
\<close>

fun market_value_loop :: "(string \<times> float) list \<Rightarrow> float \<Rightarrow> error + float" where
  "market_value_loop [] market_value = Inr market_value"
| "market_value_loop ((symb, qty) # items) market_value =
     (if feq qty (Num 0) then market_value_loop items market_value
      else (case get_share_price symb of
              Inl e \<Rightarrow> Inl e
            | Inr price \<Rightarrow> market_value_loop items (fadd market_value (fmul qty price))))"

definition portfolio_value :: "account \<Rightarrow> datetime option \<Rightarrow> (error + float) \<times> account" where
  "portfolio_value a as_of =
     (case or_latest a as_of of
        Inl e \<Rightarrow> (Inl e, a)
      | Inr ts \<Rightarrow>
          let (cash, hs) = apply_transactions_up_to a ts
          in (case market_value_loop hs (Num 0) of
                Inl e \<Rightarrow> (Inl e, a)
              | Inr market_value \<Rightarrow> (Inr (fadd cash market_value), a)))"

definition profit_loss :: "account \<Rightarrow> datetime option \<Rightarrow> (error + float) \<times> account" where
  "profit_loss a as_of =
     (case portfolio_value a as_of of
        (Inl e, a') \<Rightarrow> (Inl e, a')
      | (Inr v, a') \<Rightarrow> (Inr (fsub v (initial_deposit a')), a'))"

definition holdings ::
  "account \<Rightarrow> datetime option \<Rightarrow> (error + (string \<times> float) list) \<times> account"
where
  "holdings a as_of =
     (case or_latest a as_of of
        Inl e \<Rightarrow> (Inl e, a)
      | Inr ts \<Rightarrow>
          let (_, hs) = apply_transactions_up_to a ts
          in (Inr (filter (\<lambda>(s, q). \<not> feq q (Num 0)) hs), a))"

text \<open>The loop of \<open>transaction_history\<close>: \<open>since and tx.timestamp < since\<close> compares only
  when \<open>since\<close> is set, and the test on \<open>until\<close> is reached only past the first
  \<open>continue\<close>.\<close>

fun history_loop :: "datetime option \<Rightarrow> datetime option \<Rightarrow> transaction list
    \<Rightarrow> transaction list \<Rightarrow> error + transaction list" where
  "history_loop since until [] result = Inr result"
| "history_loop since until (tx # txs) result =
     (case (case since of None \<Rightarrow> Inr False | Some s \<Rightarrow> aware_less (timestamp tx) s) of
        Inl e \<Rightarrow> Inl e
      | Inr True \<Rightarrow> history_loop since until txs result
      | Inr False \<Rightarrow>
          (case (case until of None \<Rightarrow> Inr False | Some u \<Rightarrow> aware_greater (timestamp tx) u) of
             Inl e \<Rightarrow> Inl e
           | Inr True \<Rightarrow> history_loop since until txs result
           | Inr False \<Rightarrow> history_loop since until txs (result @ [tx])))"

definition transaction_history ::
  "account \<Rightarrow> datetime option \<Rightarrow> datetime option \<Rightarrow> (error + transaction list) \<times> account"
where
  "transaction_history a since until = (history_loop since until (transactions a) [], a)"

definition cash_balance :: "account \<Rightarrow> datetime option \<Rightarrow> (error + float) \<times> account" where
  "cash_balance a as_of =
     (case or_latest a as_of of
        Inl e \<Rightarrow> (Inl e, a)
      | Inr ts \<Rightarrow> let (cash, _) = apply_transactions_up_to a ts in (Inr cash, a))"

subsection \<open>Sequences of calls\<close>

text \<open>
  A caller (such as the functions of app.py) makes one call after another on the same
  account, each at some reading of the clock, and goes on after a call that raised.
\<close>

datatype call =
    CallDeposit float "datetime option"
  | CallWithdraw float "datetime option"
  | CallBuy string float "datetime option"
  | CallSell string float "datetime option"

fun step :: "account \<Rightarrow> int \<times> call \<Rightarrow> (error + unit) \<times> account" where
  "step a (now, CallDeposit amount ts) = deposit a now amount ts"
| "step a (now, CallWithdraw amount ts) = withdraw a now amount ts"
| "step a (now, CallBuy symb qty ts) = buy a now symb qty ts"
| "step a (now, CallSell symb qty ts) = sell a now symb qty ts"

fun run :: "account \<Rightarrow> (int \<times> call) list \<Rightarrow> account" where
  "run a [] = a"
| "run a (c # cs) = run (snd (step a c)) cs"

subsection \<open>Predicates on floats, accounts and sequences of calls\<close>

text \<open>\<open>acc = 0.0; for x in xs: acc += x\<close>: the running sum in doubles, from the left.\<close>

definition fsum :: "float list \<Rightarrow> float" where
  "fsum xs = foldl fadd (Num 0) xs"

text \<open>\<open>not (x < 0)\<close>.\<close>

definition not_negative :: "float \<Rightarrow> bool" where
  "not_negative x \<longleftrightarrow> \<not> flt x (Num 0)"

text \<open>A float that rounding leaves as it is: a double, an infinity or NaN.\<close>

definition canonical :: "float \<Rightarrow> bool" where
  "canonical x \<longleftrightarrow> (case x of Num r \<Rightarrow> round_float r = Num r | _ \<Rightarrow> True)"

text \<open>\<open>s'\<close> is what a running sum \<open>s\<close> can become when one more positive amount was added
  earlier on: NaN, or \<open>+inf\<close> where \<open>s\<close> is NaN, or a value not below \<open>s\<close>.\<close>

definition raised :: "float \<Rightarrow> float \<Rightarrow> bool" where
  "raised s s' \<longleftrightarrow> s' = NaN \<or> (s = NaN \<and> s' = PosInf) \<or> (s \<noteq> NaN \<and> fle s s')"

text \<open>No recorded symbol is the empty string (which the replay would skip as falsy).\<close>

definition symbols_nonempty :: "account \<Rightarrow> bool" where
  "symbols_nonempty a \<longleftrightarrow> (\<forall>tx\<in>set (transactions a). symbol tx \<noteq> Some [])"




text \<open>The timestamp a call records under: the one passed in, else the clock.\<close>

fun effective_timestamp :: "int \<times> call \<Rightarrow> int" where
  "effective_timestamp (now, CallDeposit amount ts) = to_utc (or_now ts now)"
| "effective_timestamp (now, CallWithdraw amount ts) = to_utc (or_now ts now)"
| "effective_timestamp (now, CallBuy symb qty ts) = to_utc (or_now ts now)"
| "effective_timestamp (now, CallSell symb qty ts) = to_utc (or_now ts now)"

text \<open>The calls that take cash out.\<close>

fun is_debit :: "call \<Rightarrow> bool" where
  "is_debit (CallWithdraw amount ts) = True"
| "is_debit (CallBuy symb qty ts) = True"
| "is_debit c = False"


text \<open>The replayed cash as of an instant, and the amounts dated after \<open>t\<close> and up to \<open>T\<close> in
  replay order.\<close>

definition cash_at :: "account \<Rightarrow> int \<Rightarrow> float" where
  "cash_at a T = fst (apply_transactions_up_to a (Aware T))"

definition between :: "account \<Rightarrow> int \<Rightarrow> int \<Rightarrow> float list" where
  "between a t T =
     map total_amount (filter (\<lambda>y. t < timestamp y \<and> timestamp y \<le> T)
       (sort_key timestamp (transactions a)))"

subsection \<open>Accounts used as concrete inputs\<close>

definition demo_account :: account where
  "demo_account = \<lparr>initial_deposit = Num 100, transactions =
     [\<lparr>timestamp = 0, type = Deposit, symbol = None, quantity = Num 0,
       price_per_share = None, total_amount = Num 100\<rparr>]\<rparr>"

definition opened_account :: account where
  "opened_account = \<lparr>initial_deposit = Num 1000, transactions =
     [\<lparr>timestamp = 0, type = Deposit, symbol = None, quantity = Num 0,
       price_per_share = None, total_amount = Num 1000\<rparr>]\<rparr>"

definition bought_account :: account where
  "bought_account = \<lparr>initial_deposit = Num 1000, transactions =
     [\<lparr>timestamp = 0, type = Deposit, symbol = None, quantity = Num 0,
       price_per_share = None, total_amount = Num 1000\<rparr>,
      \<lparr>timestamp = 1, type = Buy, symbol = Some ''AAPL'', quantity = Num 2,
       price_per_share = Some (Num 150), total_amount = Num (- 300)\<rparr>]\<rparr>"

definition sold_account :: account where
  "sold_account = \<lparr>initial_deposit = Num 1000, transactions =
     [\<lparr>timestamp = 0, type = Deposit, symbol = None, quantity = Num 0,
       price_per_share = None, total_amount = Num 1000\<rparr>,
      \<lparr>timestamp = 1, type = Buy, symbol = Some ''AAPL'', quantity = Num 2,
       price_per_share = Some (Num 150), total_amount = Num (- 300)\<rparr>,
      \<lparr>timestamp = 2, type = Sell, symbol = Some ''AAPL'', quantity = Num (- 1),
       price_per_share = Some (Num 150), total_amount = Num 150\<rparr>]\<rparr>"

definition flat_account :: account where
  "flat_account = \<lparr>initial_deposit = Num 1000, transactions =
     [\<lparr>timestamp = 0, type = Deposit, symbol = None, quantity = Num 0,
       price_per_share = None, total_amount = Num 1000\<rparr>,
      \<lparr>timestamp = 1, type = Buy, symbol = Some ''AAPL'', quantity = Num 2,
       price_per_share = Some (Num 150), total_amount = Num (- 300)\<rparr>,
      \<lparr>timestamp = 2, type = Sell, symbol = Some ''AAPL'', quantity = Num (- 2),
       price_per_share = Some (Num 150), total_amount = Num 300\<rparr>]\<rparr>"

definition big_opened :: account where
  "big_opened = \<lparr>initial_deposit = Num 9007199254740992, transactions =
     [\<lparr>timestamp = 0, type = Deposit, symbol = None, quantity = Num 0,
       price_per_share = None, total_amount = Num 9007199254740992\<rparr>]\<rparr>"

definition big_deposited :: account where
  "big_deposited = \<lparr>initial_deposit = Num 9007199254740992, transactions =
     [\<lparr>timestamp = 0, type = Deposit, symbol = None, quantity = Num 0,
       price_per_share = None, total_amount = Num 9007199254740992\<rparr>,
      \<lparr>timestamp = 1, type = Deposit, symbol = None, quantity = Num 0,
       price_per_share = None, total_amount = Num 1\<rparr>]\<rparr>"

definition rich_opened :: account where
  "rich_opened = \<lparr>initial_deposit = Num 2305843009213693952, transactions =
     [\<lparr>timestamp = 0, type = Deposit, symbol = None, quantity = Num 0,
       price_per_share = None, total_amount = Num 2305843009213693952\<rparr>]\<rparr>"

definition rich_bought :: account where
  "rich_bought = \<lparr>initial_deposit = Num 2305843009213693952, transactions =
     [\<lparr>timestamp = 0, type = Deposit, symbol = None, quantity = Num 0,
       price_per_share = None, total_amount = Num 2305843009213693952\<rparr>,
      \<lparr>timestamp = 1, type = Buy, symbol = Some ''AAPL'', quantity = Num 9007199254740992,
       price_per_share = Some (Num 150), total_amount = Num (- 1351079888211148800)\<rparr>]\<rparr>"

definition rich_bought_again :: account where
  "rich_bought_again = \<lparr>initial_deposit = Num 2305843009213693952, transactions =
     [\<lparr>timestamp = 0, type = Deposit, symbol = None, quantity = Num 0,
       price_per_share = None, total_amount = Num 2305843009213693952\<rparr>,
      \<lparr>timestamp = 1, type = Buy, symbol = Some ''AAPL'', quantity = Num 9007199254740992,
       price_per_share = Some (Num 150), total_amount = Num (- 1351079888211148800)\<rparr>,
      \<lparr>timestamp = 2, type = Buy, symbol = Some ''AAPL'', quantity = Num 1,
       price_per_share = Some (Num 150), total_amount = Num (- 150)\<rparr>]\<rparr>"




definition future_account :: account where
  "future_account = \<lparr>initial_deposit = Num 1000, transactions =
     [\<lparr>timestamp = 0, type = Deposit, symbol = None, quantity = Num 0,
       price_per_share = None, total_amount = Num 1000\<rparr>,
      \<lparr>timestamp = 100, type = Deposit, symbol = None, quantity = Num 0,
       price_per_share = None, total_amount = Num 500\<rparr>]\<rparr>"


section \<open>Properties\<close>

subsection \<open>Rounding to the nearest double\<close>

lemma overflow_pos: "0 < overflow"
  by (simp add: overflow_def)

lemma p2_less_iff: "(2::rat) powi m < 2 powi n \<longleftrightarrow> m < n"
proof
  assume "(2::rat) powi m < 2 powi n"
  show "m < n"
  proof (rule ccontr)
    assume "\<not> m < n"
    then have "n \<le> m" by simp
    then have "(2::rat) powi n \<le> 2 powi m" by (intro power_int_increasing) simp_all
    with \<open>(2::rat) powi m < 2 powi n\<close> show False by simp
  qed
next
  assume "m < n"
  then show "(2::rat) powi m < 2 powi n" by (intro power_int_strict_increasing) simp_all
qed

lemma p2_le_iff: "(2::rat) powi m \<le> 2 powi n \<longleftrightarrow> m \<le> n"
  using p2_less_iff [of n m] by (simp add: not_less [symmetric])

lemma ilog2_bounds:
  assumes "0 < r"
  shows "2 powi (ilog2 r) \<le> r" and "r < 2 powi (ilog2 r + 1)"
proof -
  have "2 powi (ilog2 r) \<le> r \<and> r < 2 powi (ilog2 r + 1)"
  proof (cases "1 \<le> r")
    case True
    define m where "m = \<lfloor>r\<rfloor>"
    from True have m1: "1 \<le> m" by (simp add: m_def le_floor_iff)
    then have mpos: "0 < m" by simp
    from bitlen_bounds [OF mpos]
    have lo: "2 ^ nat (bitlen m - 1) \<le> m" and hi: "m < 2 ^ nat (bitlen m)" by simp_all
    have b1: "1 \<le> bitlen m" using mpos bitlen_eq_zero_iff [of m] bitlen_nonneg [of m] by linarith
    have e: "ilog2 r = bitlen m - 1" using True by (simp add: ilog2_def m_def)
    have "(2::rat) powi (bitlen m - 1) = of_int (2 ^ nat (bitlen m - 1))"
      using b1 by (simp add: power_int_nonneg_exp)
    also have "\<dots> \<le> of_int m" using lo by (simp only: of_int_le_iff)
    also have "\<dots> \<le> r" by (simp add: m_def)
    finally have l: "2 powi (ilog2 r) \<le> r" by (simp add: e)
    have "r < of_int (m + 1)" unfolding m_def by linarith
    also have "\<dots> \<le> of_int (2 ^ nat (bitlen m))"
    proof -
      from hi have "m + 1 \<le> 2 ^ nat (bitlen m)" by simp
      then show ?thesis by (simp only: of_int_le_iff)
    qed
    also have "\<dots> = (2::rat) powi (bitlen m)"
      using b1 by (simp add: power_int_nonneg_exp)
    finally have u: "r < 2 powi (ilog2 r + 1)" by (simp add: e)
    from l u show ?thesis ..
  next
    case False
    then have r1: "r < 1" by simp
    define m where "m = \<lceil>1 / r\<rceil>"
    from r1 assms have inv: "1 < 1 / r" by simp
    then have m2: "2 \<le> m" unfolding m_def by (simp add: le_ceiling_iff)
    then have mpos: "0 < m - 1" by simp
    define b where "b = bitlen (m - 1)"
    from bitlen_bounds [OF mpos]
    have lo: "2 ^ nat (b - 1) \<le> m - 1" and hi: "m - 1 < 2 ^ nat b" by (simp_all add: b_def)
    have b1: "1 \<le> b" using mpos bitlen_eq_zero_iff [of "m - 1"] bitlen_nonneg [of "m - 1"]
      unfolding b_def by linarith
    have e: "ilog2 r = - b" using False by (simp add: ilog2_def m_def b_def)
    have pb: "(2::rat) powi b = of_int (2 ^ nat b)" using b1 by (simp add: power_int_nonneg_exp)
    have pb1: "(2::rat) powi (b - 1) = of_int (2 ^ nat (b - 1))"
      using b1 by (simp add: power_int_nonneg_exp)
    have "1 / r \<le> of_int m" by (simp add: m_def)
    also have "of_int m \<le> (of_int (2 ^ nat b) :: rat)"
    proof -
      from hi have "m \<le> 2 ^ nat b" by simp
      then show ?thesis by (simp only: of_int_le_iff)
    qed
    finally have "1 / r \<le> 2 powi b" by (simp add: pb)
    then have "1 \<le> 2 powi b * r" using assms by (simp add: field_simps)
    then have l: "2 powi (- b) \<le> r"
      by (simp add: power_int_minus field_simps)
    have "(of_int (2 ^ nat (b - 1)) :: rat) \<le> of_int (m - 1)" using lo by (simp only: of_int_le_iff)
    also have "(of_int (m - 1) :: rat) < 1 / r" unfolding m_def by linarith
    finally have "2 powi (b - 1) < 1 / r" by (simp add: pb1)
    then have "2 powi (b - 1) * r < 1" using assms by (simp add: field_simps)
    moreover have eq: "(2::rat) powi (1 - b) = 1 / 2 powi (b - 1)"
      using power_int_minus_divide [of "2::rat" "b - 1"] by simp
    moreover have "0 < (2::rat) powi (b - 1)" by simp
    ultimately have "r < 2 powi (1 - b)" by (simp add: pos_less_divide_eq mult.commute)
    then have u: "r < 2 powi (- b + 1)" by (simp add: algebra_simps)
    from l u show ?thesis by (simp add: e)
  qed
  then show "2 powi (ilog2 r) \<le> r" and "r < 2 powi (ilog2 r + 1)" by simp_all
qed

lemma ilog2_eqI:
  assumes "2 powi e \<le> r" and "r < 2 powi (e + 1)"
  shows "ilog2 r = e"
proof -
  have pos: "0 < r" using assms(1) zero_less_power_int [of "2::rat" e] by linarith
  from ilog2_bounds [OF pos] assms
  have "(2::rat) powi (ilog2 r) < 2 powi (e + 1)" and "(2::rat) powi e < 2 powi (ilog2 r + 1)"
    by linarith+
  then show ?thesis by (simp add: p2_less_iff)
qed

lemma ilog2_mono:
  assumes "0 < r" and "r \<le> s"
  shows "ilog2 r \<le> ilog2 s"
proof -
  from assms have "0 < s" by simp
  from ilog2_bounds(1) [OF assms(1)] ilog2_bounds(2) [OF \<open>0 < s\<close>] assms(2)
  have "(2::rat) powi (ilog2 r) < 2 powi (ilog2 s + 1)" by linarith
  then show ?thesis by (simp add: p2_less_iff)
qed

lemma rne_of_int: "rne (of_int n) = n"
  by (simp add: rne_def)

lemma rne_cases: "rne k = \<lfloor>k\<rfloor> \<or> rne k = \<lfloor>k\<rfloor> + 1"
  by (simp add: rne_def Let_def)

lemma rne_mono:
  assumes "k \<le> k'"
  shows "rne k \<le> rne k'"
proof -
  from assms have fl: "\<lfloor>k\<rfloor> \<le> \<lfloor>k'\<rfloor>" by (rule floor_mono)
  show ?thesis
  proof (cases "\<lfloor>k\<rfloor> = \<lfloor>k'\<rfloor>")
    case False
    with fl have "\<lfloor>k\<rfloor> + 1 \<le> \<lfloor>k'\<rfloor>" by simp
    with rne_cases [of k] rne_cases [of k'] show ?thesis by linarith
  next
    case True
    with assms have "k - of_int \<lfloor>k\<rfloor> \<le> k' - of_int \<lfloor>k'\<rfloor>" by simp
    with True show ?thesis by (auto simp add: rne_def Let_def)
  qed
qed

lemma rne_ge: "of_int m \<le> k \<Longrightarrow> m \<le> rne k"
  using rne_mono [of "of_int m" k] by (simp add: rne_of_int)

lemma rne_le: "k \<le> of_int m \<Longrightarrow> rne k \<le> m"
  using rne_mono [of k "of_int m"] by (simp add: rne_of_int)

lemma qexp_mono: "0 < r \<Longrightarrow> r \<le> s \<Longrightarrow> qexp r \<le> qexp s"
  using ilog2_mono [of r s] by (simp add: qexp_def)

lemma two_powi_int: "0 \<le> n \<Longrightarrow> (2::rat) powi n = of_int (2 ^ nat n)"
  by (simp add: power_int_nonneg_exp)

lemma round_pos_nonneg: "0 < r \<Longrightarrow> 0 \<le> round_pos r"
proof -
  assume "0 < r"
  then have "of_int 0 \<le> r / 2 powi qexp r" by simp
  then have "0 \<le> rne (r / 2 powi qexp r)" by (rule rne_ge)
  then show ?thesis by (simp add: round_pos_def)
qed

lemma scaled_upper:
  assumes "0 < r"
  shows "r / 2 powi qexp r \<le> of_int (2 ^ 53)"
proof -
  have "ilog2 r + 1 \<le> qexp r + 53" by (simp add: qexp_def)
  then have "(2::rat) powi (ilog2 r + 1) \<le> 2 powi (qexp r + 53)" by (simp add: p2_le_iff)
  with ilog2_bounds(2) [OF assms] have "r \<le> 2 powi (qexp r + 53)" by linarith
  also have "\<dots> = 2 powi qexp r * 2 ^ 53" by (simp add: power_int_add)
  finally have "r / 2 powi qexp r \<le> 2 ^ 53" by (simp add: pos_divide_le_eq mult.commute)
  then show ?thesis by simp
qed

lemma scaled_lower:
  assumes "0 < r" and "- 1074 < qexp r"
  shows "of_int (2 ^ 52) \<le> r / 2 powi qexp r"
proof -
  from assms(2) have q: "qexp r = ilog2 r - 52" by (simp add: qexp_def max_def split: if_splits)
  then have "ilog2 r = qexp r + 52" by simp
  with ilog2_bounds(1) [OF assms(1)] have "2 powi (qexp r + 52) \<le> r" by simp
  moreover have "(2::rat) powi (qexp r + 52) = 2 powi qexp r * 2 ^ 52" by (simp add: power_int_add)
  ultimately have "2 ^ 52 \<le> r / 2 powi qexp r" by (simp add: pos_le_divide_eq mult.commute)
  then show ?thesis by simp
qed

lemma round_pos_upper:
  assumes "0 < r"
  shows "round_pos r \<le> 2 powi (qexp r + 53)"
proof -
  from scaled_upper [OF assms] have "rne (r / 2 powi qexp r) \<le> 2 ^ 53" by (rule rne_le)
  then have "(of_int (rne (r / 2 powi qexp r)) :: rat) \<le> of_int (2 ^ 53)" by (simp only: of_int_le_iff)
  then have "of_int (rne (r / 2 powi qexp r)) * 2 powi qexp r \<le> (2 ^ 53 :: rat) * 2 powi qexp r"
    by (intro mult_right_mono) simp_all
  then show ?thesis by (simp add: round_pos_def power_int_add mult.commute)
qed

lemma round_pos_lower:
  assumes "0 < r" and "- 1074 < qexp r"
  shows "2 powi (qexp r + 52) \<le> round_pos r"
proof -
  from scaled_lower [OF assms] have "2 ^ 52 \<le> rne (r / 2 powi qexp r)" by (rule rne_ge)
  then have "(of_int (2 ^ 52) :: rat) \<le> of_int (rne (r / 2 powi qexp r))" by (simp only: of_int_le_iff)
  then have "(2 ^ 52 :: rat) * 2 powi qexp r \<le> of_int (rne (r / 2 powi qexp r)) * 2 powi qexp r"
    by (intro mult_right_mono) simp_all
  then show ?thesis by (simp add: round_pos_def power_int_add mult.commute)
qed

lemma round_pos_mono:
  assumes "0 < r" and "r \<le> s"
  shows "round_pos r \<le> round_pos s"
proof -
  from assms have spos: "0 < s" by simp
  from qexp_mono [OF assms] have qle: "qexp r \<le> qexp s" .
  show ?thesis
  proof (cases "qexp r = qexp s")
    case True
    from assms(2) have "r / 2 powi qexp s \<le> s / 2 powi qexp s"
      by (intro divide_right_mono) simp_all
    then have "rne (r / 2 powi qexp s) \<le> rne (s / 2 powi qexp s)" by (rule rne_mono)
    then have "(of_int (rne (r / 2 powi qexp s)) :: rat) \<le> of_int (rne (s / 2 powi qexp s))"
      by (simp only: of_int_le_iff)
    then have "of_int (rne (r / 2 powi qexp s)) * (2::rat) powi qexp s
               \<le> of_int (rne (s / 2 powi qexp s)) * 2 powi qexp s"
      by (intro mult_right_mono) simp_all
    then show ?thesis by (simp add: round_pos_def True)
  next
    case False
    with qle have lt: "qexp r < qexp s" by simp
    have "- 1074 \<le> qexp r" by (simp add: qexp_def)
    with lt have big: "- 1074 < qexp s" by simp
    from lt have "qexp r + 53 \<le> qexp s + 52" by simp
    then have "(2::rat) powi (qexp r + 53) \<le> 2 powi (qexp s + 52)" by (simp add: p2_le_iff)
    with round_pos_upper [OF assms(1)] round_pos_lower [OF spos big] show ?thesis by linarith
  qed
qed


lemma round_nearest_mono:
  assumes "r \<le> s"
  shows "round_nearest r \<le> round_nearest s"
proof -
  consider "0 < r" | "r = 0" | "r < 0" "s < 0" | "r < 0" "s = 0" | "r < 0" "0 < s" by linarith
  then show ?thesis
  proof cases
    case 1
    with assms round_pos_mono [of r s] show ?thesis by (simp add: round_nearest_def)
  next
    case 2
    with assms round_pos_nonneg [of s] show ?thesis by (auto simp add: round_nearest_def)
  next
    case 3
    with assms round_pos_mono [of "- s" "- r"] show ?thesis by (simp add: round_nearest_def)
  next
    case 4
    with round_pos_nonneg [of "- r"] show ?thesis by (simp add: round_nearest_def)
  next
    case 5
    with round_pos_nonneg [of "- r"] round_pos_nonneg [of s] show ?thesis
      by (simp add: round_nearest_def)
  qed
qed


lemma round_nearest_0: "round_nearest 0 = 0"
  by (simp add: round_nearest_def)






lemma round_float_nonneg: "0 \<le> r \<Longrightarrow> not_negative (round_float r)"
  using round_nearest_mono [of 0 r] overflow_pos
  by (auto simp add: not_negative_def round_float_def Let_def round_nearest_0)

lemma debit_not_negative:
  assumes "\<not> flt c m"
  shows "not_negative (fadd c (fneg m))"
proof (cases c)
  case (Num x)
  with assms show ?thesis
    by (cases m) (simp_all add: round_float_nonneg, simp_all add: not_negative_def)
next
  case PosInf
  then show ?thesis by (cases m) (simp_all add: not_negative_def)
next
  case NegInf
  with assms show ?thesis by (cases m) (simp_all add: not_negative_def)
next
  case NaN
  then show ?thesis by (simp add: not_negative_def)
qed


lemma raised_refl: "raised s s"
  by (cases s) (simp_all add: raised_def fle_def)





text \<open>Evaluating a rounding: small integers are doubles, and a value between two powers of
  two is rounded at the spacing of that binade.\<close>

lemma rne_numeral: "rne (numeral w) = numeral w"
  using rne_of_int [of "numeral w"] by simp

lemma floor_numeral_div: "\<lfloor>numeral a / numeral b :: rat\<rfloor> = numeral a div numeral b"
  using floor_divide_of_int_eq [of "numeral a" "numeral b", where ?'a = rat] by simp

lemma round_pos_eval:
  assumes "2 powi e \<le> r" and "r < 2 powi (e + 1)"
  shows "round_pos r = of_int (rne (r / 2 powi (max (e - 52) (- 1074)))) * 2 powi (max (e - 52) (- 1074))"
  using ilog2_eqI [OF assms] by (simp add: round_pos_def qexp_def)

lemma round_nearest_minus: "round_nearest (- r) = - round_nearest r"
  by (simp add: round_nearest_def)

lemma round_float_minus: "round_float (- r) = fneg (round_float r)"
  using overflow_pos by (auto simp add: round_float_def Let_def round_nearest_minus)

lemma round_float_big:
  assumes "2 ^ (52 + j) \<le> r" and "r < 2 ^ (53 + j)" and "j \<le> 970"
  shows "round_float r = Num (of_int (rne (r / 2 ^ j)) * 2 ^ j)"
proof -
  have rpos: "0 < r"
  proof -
    have "(0::rat) < 2 ^ (52 + j)" by simp
    with assms(1) show ?thesis by linarith
  qed
  have lo: "2 powi (52 + int j) \<le> r"
  proof -
    have "(2::rat) powi (52 + int j) = 2 ^ (52 + j)"
      using power_int_of_nat [of "2::rat" "52 + j"] by simp
    with assms(1) show ?thesis by simp
  qed
  have hi: "r < 2 powi (52 + int j + 1)"
  proof -
    have "(2::rat) powi (52 + int j + 1) = 2 ^ (53 + j)"
      using power_int_of_nat [of "2::rat" "53 + j"] by (simp add: add.commute)
    with assms(2) show ?thesis by simp
  qed
  have m: "max (52 + int j - 52) (- 1074) = int j" by simp
  have rp: "round_pos r = of_int (rne (r / 2 ^ j)) * 2 ^ j"
    using round_pos_eval [OF lo hi] unfolding m by simp
  have "r / 2 ^ j \<le> of_int (2 ^ 53)"
  proof -
    have "r \<le> 2 ^ 53 * 2 ^ j" using assms(2) by (simp add: power_add)
    then show ?thesis by (simp add: pos_divide_le_eq)
  qed
  then have "rne (r / 2 ^ j) \<le> 2 ^ 53" by (rule rne_le)
  then have "(of_int (rne (r / 2 ^ j)) :: rat) \<le> of_int (2 ^ 53)" by (simp only: of_int_le_iff)
  then have "of_int (rne (r / 2 ^ j)) * (2::rat) ^ j \<le> 2 ^ 53 * 2 ^ j"
    by (intro mult_right_mono) simp_all
  also have "\<dots> = (2::rat) ^ (53 + j)" by (simp add: power_add)
  also have "\<dots> < 2 ^ 1024" using assms(3) by (intro power_strict_increasing) simp_all
  finally have small: "round_pos r < overflow" by (simp add: rp overflow_def)
  have "0 \<le> round_pos r" using rpos by (rule round_pos_nonneg)
  with small rpos overflow_pos show ?thesis
    by (simp add: round_float_def round_nearest_def Let_def rp)
qed

lemma round_pos_int:
  assumes "0 < n" and "n \<le> 2 ^ 53"
  shows "round_pos (of_int n) = of_int n"
proof (cases "n = 2 ^ 53")
  case True
  have "round_float (2 ^ (52 + 1)) = Num (of_int (rne (2 ^ (52 + 1) / 2 ^ 1)) * 2 ^ 1)"
    by (rule round_float_big) simp_all
  moreover have "(2 ^ (52 + 1) / 2 ^ 1 :: rat) = of_int (2 ^ 52)" by simp
  ultimately have "round_float (2 ^ 53) = Num (2 ^ 53)" by (simp add: rne_numeral)
  then have "round_nearest (2 ^ 53) = 2 ^ 53"
    by (simp add: round_float_def Let_def split: if_splits)
  then show ?thesis using True by (simp add: round_nearest_def)
next
  case False
  with assms have lt: "n < 2 ^ 53" by simp
  define r :: rat where "r = of_int n"
  have rpos: "0 < r" using assms(1) by (simp add: r_def)
  have "r < of_int (2 ^ 53)" unfolding r_def using lt by (simp only: of_int_less_iff)
  then have "r < 2 powi 53" by simp
  with ilog2_bounds(1) [OF rpos] have "(2::rat) powi (ilog2 r) < 2 powi 53" by linarith
  then have "ilog2 r < 53" by (simp only: p2_less_iff)
  then have q0: "qexp r \<le> 0" by (simp add: qexp_def)
  define j where "j = nat (- qexp r)"
  have q: "qexp r = - int j" using q0 by (simp add: j_def)
  have p: "(2::rat) powi qexp r = 1 / 2 ^ j"
    by (simp add: q power_int_minus_divide)
  have "r / 2 powi qexp r = r * 2 ^ j" by (simp add: p)
  also have "\<dots> = of_int (n * 2 ^ j)" by (simp add: r_def)
  finally have "r / 2 powi qexp r = of_int (n * 2 ^ j)" .
  then have "rne (r / 2 powi qexp r) = n * 2 ^ j" by (simp only: rne_of_int)
  then have "round_pos r = of_int (n * 2 ^ j) * (1 / 2 ^ j)" by (simp add: round_pos_def p)
  also have "\<dots> = of_int n" by simp
  finally show ?thesis by (simp only: r_def)
qed

lemma round_float_int:
  assumes "\<bar>n\<bar> \<le> 2 ^ 53"
  shows "round_float (of_int n) = Num (of_int n)"
proof -
  have bound: "(of_int m :: rat) < overflow" if "m \<le> 2 ^ 53" for m
  proof -
    from that have "(of_int m :: rat) \<le> of_int (2 ^ 53)" by (simp only: of_int_le_iff)
    also have "\<dots> = 2 ^ 53" by simp
    also have "\<dots> < (2::rat) ^ 1024" by (intro power_strict_increasing) simp_all
    finally show ?thesis by (simp add: overflow_def)
  qed
  consider "n = 0" | "0 < n" | "n < 0" by linarith
  then show ?thesis
  proof cases
    case 1
    then show ?thesis using overflow_pos by (simp add: round_float_def round_nearest_def)
  next
    case 2
    with assms have "round_pos (of_int n) = of_int n" by (intro round_pos_int) simp_all
    with 2 bound [of n] assms overflow_pos show ?thesis
      by (simp add: round_float_def round_nearest_def Let_def)
  next
    case 3
    with assms have "round_pos (of_int (- n)) = of_int (- n)" by (intro round_pos_int) simp_all
    with 3 bound [of "- n"] assms overflow_pos show ?thesis
      by (simp add: round_float_def round_nearest_def Let_def)
  qed
qed

lemma round_float_numeral:
  "(numeral w :: int) \<le> 9007199254740992 \<Longrightarrow> round_float (numeral w) = Num (numeral w)"
  "(numeral w :: int) \<le> 9007199254740992 \<Longrightarrow> round_float (- numeral w) = Num (- numeral w)"
  "round_float 0 = Num 0"
  "round_float 1 = Num 1"
  using round_float_int [of "numeral w"] round_float_int [of "- numeral w"]
    round_float_int [of 0] round_float_int [of 1]
  by simp_all

lemma tie_2_53: "fadd (Num 9007199254740992) (Num 1) = Num 9007199254740992"
proof -
  have "round_float 9007199254740993 = Num (of_int (rne (9007199254740993 / 2 ^ 1)) * 2 ^ 1)"
    by (rule round_float_big) simp_all
  moreover have "rne (9007199254740993 / 2 ^ 1) = 4503599627370496"
    by (simp add: rne_def Let_def floor_numeral_div)
  ultimately show ?thesis by simp
qed

subsection \<open>What the replay computes\<close>

text \<open>
  On a list sorted by timestamp the loop with its \<open>break\<close> folds exactly the entries dated
  up to the cutoff, in their order.
\<close>

lemma replay_cash_sorted:
  "sorted (map timestamp xs) \<Longrightarrow>
   fst (replay T xs c h) = foldl fadd c (map total_amount (filter (\<lambda>tx. timestamp tx \<le> T) xs))"
proof (induction xs arbitrary: c h)
  case Nil
  then show ?case by simp
next
  case (Cons tx txs)
  show ?case
  proof (cases "timestamp tx > T")
    case True
    with Cons.prems have "\<forall>x\<in>set txs. \<not> timestamp x \<le> T" by auto
    then have "filter (\<lambda>tx. timestamp tx \<le> T) txs = []" by (simp add: filter_empty_conv)
    with True show ?thesis by simp
  next
    case False
    with Cons show ?thesis by simp
  qed
qed

lemma apply_cash:
  "fst (apply_transactions_up_to a up_to) =
   fsum (map total_amount
     (filter (\<lambda>tx. timestamp tx \<le> to_utc up_to) (sort_key timestamp (transactions a))))"
  by (simp add: apply_transactions_up_to_def replay_cash_sorted fsum_def)

lemma map_of_bump_moves:
  "moves_shares tx \<Longrightarrow> map_of (bump tx h) s =
     (if symbol tx = Some s
      then Some (fadd (case map_of h s of None \<Rightarrow> Num 0 | Some q \<Rightarrow> q) (quantity tx))
      else map_of h s)"
  by (cases "symbol tx") (auto simp add: bump_def Let_def update_conv' moves_shares_def)

lemma replay_holdings_sorted:
  "sorted (map timestamp xs) \<Longrightarrow>
   map_of (snd (replay T xs c h)) s =
     (let qs = map quantity
                 (filter (\<lambda>tx. moves_shares tx \<and> symbol tx = Some s \<and> timestamp tx \<le> T) xs)
      in if qs = [] then map_of h s
         else Some (foldl fadd (case map_of h s of None \<Rightarrow> Num 0 | Some q \<Rightarrow> q) qs))"
proof (induction xs arbitrary: c h)
  case Nil
  then show ?case by simp
next
  case (Cons tx txs)
  show ?case
  proof (cases "timestamp tx > T")
    case True
    with Cons.prems have "\<forall>x\<in>set txs. \<not> timestamp x \<le> T" by auto
    then have "filter (\<lambda>tx. moves_shares tx \<and> symbol tx = Some s \<and> timestamp tx \<le> T) txs = []"
      by (simp add: filter_empty_conv)
    with True show ?thesis by simp
  next
    case False
    from Cons.prems have srt: "sorted (map timestamp txs)" by simp
    show ?thesis
      using False Cons.IH [OF srt]
      by (simp add: Let_def map_of_bump_moves)
  qed
qed

lemma apply_holdings:
  "map_of (snd (apply_transactions_up_to a up_to)) s =
     (let qs = map quantity
                 (filter (\<lambda>tx. moves_shares tx \<and> symbol tx = Some s \<and> timestamp tx \<le> to_utc up_to)
                    (sort_key timestamp (transactions a)))
      in if qs = [] then None else Some (fsum qs))"
  by (simp add: apply_transactions_up_to_def replay_holdings_sorted Let_def fsum_def)

lemma distinct_bump: "distinct (map fst h) \<Longrightarrow> distinct (map fst (bump tx h))"
  by (simp add: bump_def Let_def distinct_update)

lemma replay_distinct:
  "distinct (map fst h) \<Longrightarrow> distinct (map fst (snd (replay T xs c h)))"
  by (induction xs arbitrary: c h) (simp_all add: distinct_bump)

lemma apply_distinct: "distinct (map fst (snd (apply_transactions_up_to a up_to)))"
  by (simp add: apply_transactions_up_to_def replay_distinct)

lemma map_of_filter_nonzero:
  fixes h :: "(string \<times> float) list"
  shows "distinct (map fst h) \<Longrightarrow>
   map_of (filter (\<lambda>(k, v). \<not> feq v (Num 0)) h) s =
     (case map_of h s of None \<Rightarrow> None | Some v \<Rightarrow> if feq v (Num 0) then None else Some v)"
proof (induction h)
  case Nil
  then show ?case by simp
next
  case (Cons p h)
  obtain k v where p: "p = (k, v)" by (cases p)
  from Cons.prems p have nk: "map_of h k = None"
    by (simp add: map_of_eq_None_iff)
  from Cons p nk show ?case by (auto split: option.splits)
qed

text \<open>
  Claim C4, amended. For every account and every explicit \<open>as_of\<close>, \<open>cash_balance\<close> returns
  the running double-precision sum, started at 0.0 and taken in ascending timestamp order
  (ties in recorded order), of \<open>total_amount\<close> over the recorded transactions dated up to
  \<open>as_of\<close> (read as UTC when it is naive), and leaves the account as it was.
\<close>

theorem cash_balance_is_float_sum:
  "cash_balance a (Some T) =
     (Inr (fsum (map total_amount
             (filter (\<lambda>tx. timestamp tx \<le> to_utc T) (sort_key timestamp (transactions a))))), a)"
proof -
  obtain cash hs where r: "apply_transactions_up_to a T = (cash, hs)"
    by (cases "apply_transactions_up_to a T")
  with apply_cash [of a T] show ?thesis
    by (simp add: cash_balance_def or_latest_def)
qed

text \<open>
  Claim C5, amended. For every account none of whose recorded symbols is empty (or for a
  symbol that is not empty), every explicit \<open>as_of\<close> and every symbol, \<open>holdings\<close> maps the
  symbol to the running double-precision sum, started at 0.0 and taken in ascending
  timestamp order (ties in recorded order), of the signed quantities of the buy and sell
  transactions on it dated up to \<open>as_of\<close>; it has no entry for the symbol when there is no
  such transaction or when that sum compares equal to zero.
\<close>

theorem holdings_is_float_sum:
  assumes "s \<noteq> [] \<or> symbols_nonempty a"
  shows "\<exists>hs. holdings a (Some T) = (Inr hs, a) \<and>
     map_of hs s =
       (let qs = map quantity
                   (filter (\<lambda>tx. (type tx = Buy \<or> type tx = Sell) \<and> symbol tx = Some s
                                 \<and> timestamp tx \<le> to_utc T)
                      (sort_key timestamp (transactions a)))
        in if qs = [] \<or> feq (fsum qs) (Num 0) then None else Some (fsum qs))"
proof -
  obtain cash raw where r: "apply_transactions_up_to a T = (cash, raw)"
    by (cases "apply_transactions_up_to a T")
  have same: "filter (\<lambda>tx. moves_shares tx \<and> symbol tx = Some s \<and> timestamp tx \<le> to_utc T)
                (sort_key timestamp (transactions a))
            = filter (\<lambda>tx. (type tx = Buy \<or> type tx = Sell) \<and> symbol tx = Some s
                                \<and> timestamp tx \<le> to_utc T) (sort_key timestamp (transactions a))"
    using assms by (intro filter_cong) (auto simp add: moves_shares_def symbols_nonempty_def)
  have d: "distinct (map fst raw)"
    using apply_distinct [of a T] r by simp
  have m: "map_of raw s =
     (let qs = map quantity
                 (filter (\<lambda>tx. (type tx = Buy \<or> type tx = Sell) \<and> symbol tx = Some s
                                \<and> timestamp tx \<le> to_utc T) (sort_key timestamp (transactions a)))
      in if qs = [] then None else Some (fsum qs))"
    using apply_holdings [of a T s] r same by simp
  have h: "holdings a (Some T) = (Inr (filter (\<lambda>(k, v). \<not> feq v (Num 0)) raw), a)"
    using r by (simp add: holdings_def or_latest_def)
  have "map_of (filter (\<lambda>(k, v). \<not> feq v (Num 0)) raw) s =
       (let qs = map quantity
                   (filter (\<lambda>tx. (type tx = Buy \<or> type tx = Sell) \<and> symbol tx = Some s
                                 \<and> timestamp tx \<le> to_utc T)
                      (sort_key timestamp (transactions a)))
        in if qs = [] \<or> feq (fsum qs) (Num 0) then None else Some (fsum qs))"
    by (simp add: map_of_filter_nonzero [OF d] m Let_def)
  with h show ?thesis by blast
qed

text \<open>After a successful construction and any sequence of calls no recorded symbol is
  empty: \<open>buy\<close> prices the symbol before it records.\<close>

lemma priced_nonempty: "get_share_price s = Inr p \<Longrightarrow> s \<noteq> []"
  by (auto simp add: get_share_price_def prices_def split: option.splits if_splits)

lemma symbols_nonempty_step: "symbols_nonempty a \<Longrightarrow> symbols_nonempty (snd (step a c))"
proof (cases c)
  case (Pair now k)
  assume inv: "symbols_nonempty a"
  show ?thesis
  proof (cases k)
    case (CallDeposit amount ts)
    with Pair inv show ?thesis
      by (simp add: deposit_def Let_def symbols_nonempty_def record_transaction_def)
  next
    case (CallWithdraw amount ts)
    with Pair inv show ?thesis
      by (simp add: withdraw_def Let_def symbols_nonempty_def record_transaction_def
          split: prod.splits)
  next
    case (CallBuy symb qty ts)
    with Pair inv show ?thesis
      by (auto simp add: buy_def Let_def symbols_nonempty_def record_transaction_def
          dest: priced_nonempty split: prod.splits sum.splits)
  next
    case (CallSell symb qty ts)
    with Pair inv show ?thesis
      by (auto simp add: sell_def Let_def symbols_nonempty_def record_transaction_def
          dest: priced_nonempty split: prod.splits sum.splits)
  qed
qed

lemma symbols_nonempty_run: "symbols_nonempty a \<Longrightarrow> symbols_nonempty (run a cs)"
  by (induction cs arbitrary: a) (simp_all add: symbols_nonempty_step)

lemma symbols_nonempty_init: "init now d = Inr a \<Longrightarrow> symbols_nonempty a"
  by (auto simp add: init_def symbols_nonempty_def record_transaction_def split: if_splits)

lemmas float_eval = round_float_numeral fle_def

subsection \<open>Evaluating the operations on the concrete accounts\<close>

lemma round_2_61: "round_float 2305843009213693952 = Num 2305843009213693952"
proof -
  have "round_float 2305843009213693952
      = Num (of_int (rne (2305843009213693952 / 2 ^ 9)) * 2 ^ 9)"
    by (rule round_float_big) simp_all
  then show ?thesis by (simp add: rne_numeral)
qed

lemma round_cost: "round_float 1351079888211148800 = Num 1351079888211148800"
proof -
  have "round_float 1351079888211148800
      = Num (of_int (rne (1351079888211148800 / 2 ^ 8)) * 2 ^ 8)"
    by (rule round_float_big) simp_all
  then show ?thesis by (simp add: rne_numeral)
qed

lemma round_rest: "round_float 954763121002545152 = Num 954763121002545152"
proof -
  have "round_float 954763121002545152
      = Num (of_int (rne (954763121002545152 / 2 ^ 7)) * 2 ^ 7)"
    by (rule round_float_big) simp_all
  then show ?thesis by (simp add: rne_numeral)
qed

lemma round_tie: "round_float 9007199254740993 = Num 9007199254740992"
  using tie_2_53 by simp

text \<open>The amounts of the runs below that rounding matters for are doubles.\<close>

lemma canonical_inputs:
  "canonical (Num 9007199254740992)" "canonical (Num 1)" "canonical (Num 2305843009213693952)"
  by (simp_all add: canonical_def round_2_61 float_eval)

lemma price_AAPL: "get_share_price ''AAPL'' = Inr (Num 150)"
  by (simp add: get_share_price_def prices_def)

lemma demo_cash: "apply_transactions_up_to demo_account (Aware 7) = (Num 100, [])"
  by (simp add: demo_account_def apply_transactions_up_to_def moves_shares_def float_eval)

lemma init_opened: "init 0 (Num 1000) = Inr opened_account"
  by (simp add: init_def opened_account_def record_transaction_def float_eval)

lemma replay_opened: "apply_transactions_up_to opened_account (Aware 1) = (Num 1000, [])"
  by (simp add: opened_account_def apply_transactions_up_to_def moves_shares_def float_eval)

lemma buy_opened: "buy opened_account 1 ''AAPL'' (Num 2) None = (Inr (), bought_account)"
  by (simp add: buy_def price_AAPL replay_opened float_eval)
     (simp add: opened_account_def bought_account_def record_transaction_def)

lemma replay_bought:
  "apply_transactions_up_to bought_account (Aware 1) = (Num 700, [(''AAPL'', Num 2)])"
  "apply_transactions_up_to bought_account (Aware 2) = (Num 700, [(''AAPL'', Num 2)])"
  by (simp_all add: bought_account_def apply_transactions_up_to_def moves_shares_def bump_def
      float_eval)

lemma latest_bought: "latest_timestamp bought_account = Inr (Aware 1)"
  by (simp add: bought_account_def latest_timestamp_def)

lemma replay_sold:
  "apply_transactions_up_to sold_account (Aware 2) = (Num 850, [(''AAPL'', Num 1)])"
  by (simp add: sold_account_def apply_transactions_up_to_def moves_shares_def bump_def
      float_eval)

lemma latest_sold: "latest_timestamp sold_account = Inr (Aware 2)"
  by (simp add: sold_account_def latest_timestamp_def)

text \<open>
  Claim C2. Open with 1000 and buy 2 AAPL at 150: cash 700, holdings AAPL 2, as the
  scenario says. The sale of 1 share then raises \<open>AttributeError\<close> and the account stays
  as it was, where the scenario expects cash 850 and holdings AAPL 1. The first definition
  of \<open>sell\<close>, which the later one replaces, gives exactly those figures.
\<close>

theorem buy_then_sell_scenario:
  "init 0 (Num 1000) = Inr opened_account
   \<and> buy opened_account 1 ''AAPL'' (Num 2) None = (Inr (), bought_account)
   \<and> cash_balance bought_account None = (Inr (Num 700), bought_account)
   \<and> holdings bought_account None = (Inr [(''AAPL'', Num 2)], bought_account)
   \<and> sell bought_account 2 ''AAPL'' (Num 1) None = (Inl AttributeError, bought_account)
   \<and> sell_first bought_account 2 ''AAPL'' (Num 1) None = (Inr (), sold_account)
   \<and> cash_balance sold_account None = (Inr (Num 850), sold_account)
   \<and> holdings sold_account None = (Inr [(''AAPL'', Num 1)], sold_account)"
proof -
  have s: "sell bought_account 2 ''AAPL'' (Num 1) None = (Inl AttributeError, bought_account)"
    by (simp add: sell_def replay_bought float_eval)
  have f: "sell_first bought_account 2 ''AAPL'' (Num 1) None = (Inr (), sold_account)"
    by (simp add: sell_first_def replay_bought price_AAPL float_eval)
       (simp add: bought_account_def sold_account_def record_transaction_def)
  have c1: "cash_balance bought_account None = (Inr (Num 700), bought_account)"
    by (simp add: cash_balance_def or_latest_def latest_bought replay_bought)
  have h1: "holdings bought_account None = (Inr [(''AAPL'', Num 2)], bought_account)"
    by (simp add: holdings_def or_latest_def latest_bought replay_bought)
  have c2: "cash_balance sold_account None = (Inr (Num 850), sold_account)"
    by (simp add: cash_balance_def or_latest_def latest_sold replay_sold)
  have h2: "holdings sold_account None = (Inr [(''AAPL'', Num 1)], sold_account)"
    by (simp add: holdings_def or_latest_def latest_sold replay_sold)
  from init_opened buy_opened s f c1 h1 c2 h2 show ?thesis by simp
qed

lemma init_big: "init 0 (Num 9007199254740992) = Inr big_opened"
  by (simp add: init_def big_opened_def record_transaction_def float_eval)

lemma deposit_big: "deposit big_opened 1 (Num 1) None = (Inr (), big_deposited)"
  by (simp add: deposit_def big_opened_def big_deposited_def record_transaction_def float_eval)

lemma replay_big:
  "apply_transactions_up_to big_deposited (Aware 1) = (Num 9007199254740992, [])"
  by (simp add: big_deposited_def apply_transactions_up_to_def moves_shares_def float_eval
      round_tie)

text \<open>
  Claim C4, as stated, fails. Open with \<open>2 ^ 53\<close> and deposit 1: the recorded amounts are
  \<open>2 ^ 53\<close> and 1, and the cash balance is \<open>2 ^ 53\<close>, not their sum, since
  \<open>2 ^ 53 + 1\<close> is not a double and the tie rounds to the even neighbour.
\<close>

theorem cash_sum_rounds_counterexample:
  "init 0 (Num 9007199254740992) = Inr big_opened
   \<and> deposit big_opened 1 (Num 1) None = (Inr (), big_deposited)
   \<and> map total_amount (transactions big_deposited) = [Num 9007199254740992, Num 1]
   \<and> cash_balance big_deposited (Some (Aware 1)) = (Inr (Num 9007199254740992), big_deposited)
   \<and> Num 9007199254740992 \<noteq> Num (9007199254740992 + 1)
   \<and> canonical (Num 9007199254740992) \<and> canonical (Num 1)"
proof -
  have c: "cash_balance big_deposited (Some (Aware 1))
      = (Inr (Num 9007199254740992), big_deposited)"
    by (simp add: cash_balance_def or_latest_def replay_big)
  have m: "map total_amount (transactions big_deposited) = [Num 9007199254740992, Num 1]"
    by (simp add: big_deposited_def)
  from init_big deposit_big m c canonical_inputs show ?thesis by simp
qed

lemma init_rich: "init 0 (Num 2305843009213693952) = Inr rich_opened"
  by (simp add: init_def rich_opened_def record_transaction_def float_eval)

lemma replay_rich_opened:
  "apply_transactions_up_to rich_opened (Aware 1) = (Num 2305843009213693952, [])"
  by (simp add: rich_opened_def apply_transactions_up_to_def moves_shares_def round_2_61)

lemma buy_rich:
  "buy rich_opened 1 ''AAPL'' (Num 9007199254740992) None = (Inr (), rich_bought)"
  by (simp add: buy_def price_AAPL replay_rich_opened float_eval round_cost)
     (simp add: rich_opened_def rich_bought_def record_transaction_def)

lemma replay_rich_bought:
  "apply_transactions_up_to rich_bought (Aware 2)
     = (Num 954763121002545152, [(''AAPL'', Num 9007199254740992)])"
  by (simp add: rich_bought_def apply_transactions_up_to_def moves_shares_def bump_def
      round_2_61 round_rest float_eval)

lemma buy_rich_again:
  "buy rich_bought 2 ''AAPL'' (Num 1) None = (Inr (), rich_bought_again)"
  by (simp add: buy_def price_AAPL replay_rich_bought float_eval)
     (simp add: rich_bought_def rich_bought_again_def record_transaction_def)

lemma holdings_rich:
  "snd (apply_transactions_up_to rich_bought_again (Aware 2))
     = [(''AAPL'', Num 9007199254740992)]"
  by (simp add: rich_bought_again_def apply_transactions_up_to_def moves_shares_def bump_def
      float_eval round_tie)

text \<open>
  Claim C5, as stated, fails. Open with \<open>2 ^ 61\<close>, buy \<open>2 ^ 53\<close> shares of AAPL and then 1
  more: the recorded quantities are \<open>2 ^ 53\<close> and 1, and the holding is \<open>2 ^ 53\<close>, not
  their sum.
\<close>

theorem holdings_sum_rounds_counterexample:
  "init 0 (Num 2305843009213693952) = Inr rich_opened
   \<and> buy rich_opened 1 ''AAPL'' (Num 9007199254740992) None = (Inr (), rich_bought)
   \<and> buy rich_bought 2 ''AAPL'' (Num 1) None = (Inr (), rich_bought_again)
   \<and> map quantity (filter (\<lambda>tx. type tx = Buy) (transactions rich_bought_again))
       = [Num 9007199254740992, Num 1]
   \<and> holdings rich_bought_again (Some (Aware 2))
       = (Inr [(''AAPL'', Num 9007199254740992)], rich_bought_again)
   \<and> Num 9007199254740992 \<noteq> Num (9007199254740992 + 1)
   \<and> canonical (Num 2305843009213693952) \<and> canonical (Num 9007199254740992)
   \<and> canonical (Num 1)"
proof -
  obtain c where "apply_transactions_up_to rich_bought_again (Aware 2)
      = (c, [(''AAPL'', Num 9007199254740992)])"
    using holdings_rich by (cases "apply_transactions_up_to rich_bought_again (Aware 2)") simp
  then have h: "holdings rich_bought_again (Some (Aware 2))
       = (Inr [(''AAPL'', Num 9007199254740992)], rich_bought_again)"
    by (simp add: holdings_def or_latest_def)
  have m: "map quantity (filter (\<lambda>tx. type tx = Buy) (transactions rich_bought_again))
       = [Num 9007199254740992, Num 1]"
    by (simp add: rich_bought_again_def)
  from init_rich buy_rich buy_rich_again m h canonical_inputs show ?thesis by simp
qed

lemma replay_flat:
  "apply_transactions_up_to flat_account (Aware 1) = (Num 700, [(''AAPL'', Num 2)])"
  "apply_transactions_up_to flat_account (Aware 2) = (Num 1000, [(''AAPL'', Num 0)])"
  by (simp_all add: flat_account_def apply_transactions_up_to_def moves_shares_def bump_def
      float_eval)

text \<open>A log with a purchase of 2 and a sale of 2: the symbol is held as of the purchase
  and absent as of the sale, where the signed quantities add up to zero.\<close>

theorem holdings_is_float_sum_witness:
  "symbols_nonempty flat_account
   \<and> holdings flat_account (Some (Aware 1)) = (Inr [(''AAPL'', Num 2)], flat_account)
   \<and> holdings flat_account (Some (Aware 2)) = (Inr [], flat_account)
   \<and> (\<exists>hs. holdings flat_account (Some (Aware 2)) = (Inr hs, flat_account)
          \<and> map_of hs ''AAPL'' = None)"
proof -
  have n: "symbols_nonempty flat_account"
    by (simp add: symbols_nonempty_def flat_account_def)
  then have h: "''AAPL'' \<noteq> [] \<or> symbols_nonempty flat_account" by simp
  have h1: "holdings flat_account (Some (Aware 1)) = (Inr [(''AAPL'', Num 2)], flat_account)"
    by (simp add: holdings_def or_latest_def replay_flat)
  have h2: "holdings flat_account (Some (Aware 2)) = (Inr [], flat_account)"
    by (simp add: holdings_def or_latest_def replay_flat)
  have q: "fsum (map quantity
             (filter (\<lambda>tx. (type tx = Buy \<or> type tx = Sell) \<and> symbol tx = Some ''AAPL''
                           \<and> timestamp tx \<le> 2)
                (sort_key timestamp (transactions flat_account)))) = Num 0"
    by (simp add: flat_account_def fsum_def float_eval)
  from holdings_is_float_sum [OF h, of "Aware 2"]
  have "\<exists>hs. holdings flat_account (Some (Aware 2)) = (Inr hs, flat_account)
          \<and> map_of hs ''AAPL'' = None"
    by (simp add: Let_def q)
  with n h1 h2 show ?thesis by simp
qed

subsection \<open>Cash never negative\<close>

text \<open>Where a stable sort puts an entry appended to the log.\<close>

lemma insort_key_before:
  "f y \<le> f x \<Longrightarrow> insort_key f y (A @ x # B) = insort_key f y A @ x # B"
  by (induction A) simp_all

lemma insort_key_after:
  "\<forall>a\<in>set A. f a < f y \<Longrightarrow> f x < f y \<Longrightarrow>
   insort_key f y (A @ x # B) = A @ x # insort_key f y B"
  by (induction A) auto

lemma sort_key_snoc:
  fixes f :: "'a \<Rightarrow> int"
  shows "sort_key f (xs @ [x]) =
     filter (\<lambda>y. f y \<le> f x) (sort_key f xs) @ x # filter (\<lambda>y. f x < f y) (sort_key f xs)"
proof (induction xs)
  case Nil
  then show ?case by simp
next
  case (Cons y xs)
  let ?S = "sort_key f xs"
  have srt: "sorted (map f ?S)" by simp
  show ?case
  proof (cases "f y \<le> f x")
    case True
    have "insort_key f y (filter (\<lambda>y. f y \<le> f x) ?S @ x # filter (\<lambda>y. f x < f y) ?S)
        = insort_key f y (filter (\<lambda>y. f y \<le> f x) ?S) @ x # filter (\<lambda>y. f x < f y) ?S"
      using True by (rule insort_key_before)
    moreover have "filter (\<lambda>y. f y \<le> f x) (insort_key f y ?S)
        = insort_key f y (filter (\<lambda>y. f y \<le> f x) ?S)"
      using srt True by (rule filter_insort)
    moreover have "filter (\<lambda>y. f x < f y) (insort_key f y ?S) = filter (\<lambda>y. f x < f y) ?S"
      using True by (intro filter_insort_triv) simp
    ultimately show ?thesis using Cons.IH by simp
  next
    case False
    then have lt: "f x < f y" by simp
    have "\<forall>a\<in>set (filter (\<lambda>y. f y \<le> f x) ?S). f a < f y" using lt by auto
    then have "insort_key f y (filter (\<lambda>y. f y \<le> f x) ?S @ x # filter (\<lambda>y. f x < f y) ?S)
        = filter (\<lambda>y. f y \<le> f x) ?S @ x # insort_key f y (filter (\<lambda>y. f x < f y) ?S)"
      using lt by (rule insort_key_after)
    moreover have "filter (\<lambda>y. f x < f y) (insort_key f y ?S)
        = insort_key f y (filter (\<lambda>y. f x < f y) ?S)"
      using srt lt by (rule filter_insort)
    moreover have "filter (\<lambda>y. f y \<le> f x) (insort_key f y ?S) = filter (\<lambda>y. f y \<le> f x) ?S"
      using False by (intro filter_insort_triv) simp
    ultimately show ?thesis using Cons.IH by simp
  qed
qed



lemma cash_at_append:
  assumes a': "transactions a' = transactions a @ [x]"
  shows "cash_at a' T =
     (if T < timestamp x then cash_at a T
      else foldl fadd (fadd (cash_at a (timestamp x)) (total_amount x))
             (between a (timestamp x) T))"
proof -
  let ?S = "sort_key timestamp (transactions a)"
  let ?t = "timestamp x"
  have S': "sort_key timestamp (transactions a')
      = filter (\<lambda>y. timestamp y \<le> ?t) ?S @ x # filter (\<lambda>y. ?t < timestamp y) ?S"
    by (simp add: a' sort_key_snoc)
  show ?thesis
  proof (cases "T < ?t")
    case True
    have "filter (\<lambda>y. timestamp y \<le> T) (filter (\<lambda>y. timestamp y \<le> ?t) ?S)
        = filter (\<lambda>y. timestamp y \<le> T) ?S"
      using True by (auto intro: filter_cong)
    moreover have "filter (\<lambda>y. timestamp y \<le> T) (filter (\<lambda>y. ?t < timestamp y) ?S) = []"
      using True by (auto simp add: filter_empty_conv)
    ultimately show ?thesis using True
      by (simp add: cash_at_def apply_cash fsum_def S')
  next
    case False
    have "filter (\<lambda>y. timestamp y \<le> T) (filter (\<lambda>y. timestamp y \<le> ?t) ?S)
        = filter (\<lambda>y. timestamp y \<le> ?t) ?S"
      using False by (auto intro: filter_cong)
    moreover have "filter (\<lambda>y. timestamp y \<le> T) (filter (\<lambda>y. ?t < timestamp y) ?S)
        = filter (\<lambda>y. ?t < timestamp y \<and> timestamp y \<le> T) ?S"
      by (auto intro: filter_cong)
    ultimately show ?thesis using False
      by (simp add: cash_at_def apply_cash fsum_def S' between_def)
  qed
qed

lemma between_empty: "between a t t = []"
  by (simp add: between_def)





text \<open>Whatever its date, an accepted withdrawal or purchase leaves the cash as of its own
  effective timestamp not negative.\<close>

lemma accepted_debit_covered:
  assumes "is_debit k" and "fst (step a (now, k)) = Inr ()"
  shows "not_negative (cash_at (snd (step a (now, k))) (effective_timestamp (now, k)))"
proof (cases k)
  case (CallWithdraw amount ts)
  obtain cash hs where r: "apply_transactions_up_to a (or_now ts now) = (cash, hs)"
    by (cases "apply_transactions_up_to a (or_now ts now)")
  have cash: "cash_at a (to_utc (or_now ts now)) = cash"
    using r by (simp add: cash_at_def apply_transactions_up_to_def)
  from assms(2) CallWithdraw r have ok: "\<not> fle amount (Num 0)" "\<not> flt cash amount"
    by (simp_all add: withdraw_def split: if_splits)
  then have s: "snd (step a (now, k))
      = record_transaction a (or_now ts now) Withdraw None (Num 0) None (fneg amount)"
    using CallWithdraw r by (simp add: withdraw_def)
  have "cash_at (snd (step a (now, k))) (to_utc (or_now ts now)) = fadd cash (fneg amount)"
    using cash_at_append [of "snd (step a (now, k))" a
        "\<lparr>timestamp = to_utc (or_now ts now), type = Withdraw, symbol = None,
          quantity = Num 0, price_per_share = None, total_amount = fneg amount\<rparr>"
        "to_utc (or_now ts now)"]
    by (simp add: s record_transaction_def between_empty cash)
  with ok(2) CallWithdraw show ?thesis by (simp add: debit_not_negative)
next
  case (CallBuy symb qty ts)
  obtain cash hs where r: "apply_transactions_up_to a (or_now ts now) = (cash, hs)"
    by (cases "apply_transactions_up_to a (or_now ts now)")
  have cash: "cash_at a (to_utc (or_now ts now)) = cash"
    using r by (simp add: cash_at_def apply_transactions_up_to_def)
  from assms(2) CallBuy obtain price where p: "get_share_price symb = Inr price"
    by (cases "get_share_price symb") (simp_all add: buy_def split: if_splits)
  from assms(2) CallBuy r p have ok: "\<not> fle qty (Num 0)" "\<not> flt cash (fmul price qty)"
    by (simp_all add: buy_def Let_def split: if_splits)
  then have s: "snd (step a (now, k))
      = record_transaction a (or_now ts now) Buy (Some symb) qty (Some price)
          (fneg (fmul price qty))"
    using CallBuy r p by (simp add: buy_def)
  have "cash_at (snd (step a (now, k))) (to_utc (or_now ts now))
      = fadd cash (fneg (fmul price qty))"
    using cash_at_append [of "snd (step a (now, k))" a
        "\<lparr>timestamp = to_utc (or_now ts now), type = Buy, symbol = Some symb,
          quantity = qty, price_per_share = Some price, total_amount = fneg (fmul price qty)\<rparr>"
        "to_utc (or_now ts now)"]
    by (simp add: s record_transaction_def between_empty cash)
  with ok(2) CallBuy show ?thesis by (simp add: debit_not_negative)
qed (use assms(1) in simp_all)




















subsection \<open>The first and the later definitions\<close>

lemma fold_max_ge:
  "m \<le> fold (\<lambda>t m. max m (timestamp t)) txs m
   \<and> (\<forall>tx\<in>set txs. timestamp tx \<le> fold (\<lambda>t m. max m (timestamp t)) txs m)"
proof (induction txs arbitrary: m)
  case Nil
  then show ?case by simp
next
  case (Cons x xs)
  from Cons.IH [of "max m (timestamp x)"] show ?case by auto
qed

lemma latest_timestamp_ge:
  assumes "transactions a \<noteq> []"
  shows "\<exists>m. latest_timestamp a = Inr (Aware m) \<and> (\<forall>tx\<in>set (transactions a). timestamp tx \<le> m)"
proof -
  from assms obtain tx txs where l: "transactions a = tx # txs"
    by (cases "transactions a") auto
  from fold_max_ge [of "timestamp tx" txs] l show ?thesis
    by (simp add: latest_timestamp_def)
qed

lemma cash_all:
  assumes "\<forall>tx\<in>set (transactions a). timestamp tx \<le> T"
  shows "fst (apply_transactions_up_to a (Aware T))
       = fsum (map total_amount (sort_key timestamp (transactions a)))"
proof -
  from assms have "filter (\<lambda>tx. timestamp tx \<le> T) (sort_key timestamp (transactions a))
      = sort_key timestamp (transactions a)"
    by (simp add: filter_id_conv)
  then show ?thesis using apply_cash [of a "Aware T"] by simp
qed

text \<open>
  Claim C6, amended. The first and the later definitions of \<open>withdraw\<close>, and those of
  \<open>buy\<close>, return the same result and leave the same account whenever a timestamp is
  passed, and also without one when the log is not empty and holds nothing dated after
  the clock.
\<close>

theorem redefinitions_agree:
  assumes "ts_opt \<noteq> None
     \<or> (transactions a \<noteq> [] \<and> (\<forall>tx\<in>set (transactions a). timestamp tx \<le> now))"
  shows "withdraw_first a now amount ts_opt = withdraw a now amount ts_opt
     \<and> buy_first a now symb qty ts_opt = buy a now symb qty ts_opt"
proof (cases ts_opt)
  case (Some t)
  then show ?thesis
    by (simp add: withdraw_first_def withdraw_def buy_first_def buy_def Let_def
        split: prod.splits sum.splits)
next
  case None
  with assms have ne: "transactions a \<noteq> []"
    and le: "\<forall>tx\<in>set (transactions a). timestamp tx \<le> now" by simp_all
  from latest_timestamp_ge [OF ne] obtain m where
    lt: "latest_timestamp a = Inr (Aware m)" and ge: "\<forall>tx\<in>set (transactions a). timestamp tx \<le> m"
    by blast
  obtain c1 h1 where r1: "apply_transactions_up_to a (Aware m) = (c1, h1)"
    by (cases "apply_transactions_up_to a (Aware m)")
  obtain c2 h2 where r2: "apply_transactions_up_to a (Aware now) = (c2, h2)"
    by (cases "apply_transactions_up_to a (Aware now)")
  from cash_all [OF ge] cash_all [OF le] r1 r2 have eq: "c1 = c2" by simp
  from None lt r1 r2 eq show ?thesis
    by (simp add: withdraw_first_def withdraw_def buy_first_def buy_def Let_def
        split: sum.splits)
qed

lemma deposit_future:
  "deposit opened_account 0 (Num 500) (Some (Aware 100)) = (Inr (), future_account)"
  by (simp add: deposit_def opened_account_def future_account_def record_transaction_def
      float_eval)

lemma replay_future:
  "apply_transactions_up_to future_account (Aware 1) = (Num 1000, [])"
  "apply_transactions_up_to future_account (Aware 100) = (Num 1500, [])"
  by (simp_all add: future_account_def apply_transactions_up_to_def moves_shares_def float_eval)

lemma latest_future: "latest_timestamp future_account = Inr (Aware 100)"
  by (simp add: future_account_def latest_timestamp_def)

text \<open>
  Claim C6, as stated, fails. With no timestamp passed, the first \<open>withdraw\<close> checks the
  cash as of the latest recorded timestamp, the later one as of the clock. On an account
  holding a deposit dated ahead of the clock the first accepts a withdrawal that the later
  one refuses.
\<close>

theorem redefinitions_differ_counterexample:
  "init 0 (Num 1000) = Inr opened_account
   \<and> deposit opened_account 0 (Num 500) (Some (Aware 100)) = (Inr (), future_account)
   \<and> withdraw future_account 1 (Num 1200) None = (Inl InsufficientFundsError, future_account)
   \<and> fst (withdraw_first future_account 1 (Num 1200) None) = Inr ()
   \<and> withdraw_first future_account 1 (Num 1200) None \<noteq> withdraw future_account 1 (Num 1200) None"
proof -
  have w: "withdraw future_account 1 (Num 1200) None
      = (Inl InsufficientFundsError, future_account)"
    by (simp add: withdraw_def replay_future float_eval)
  have f: "fst (withdraw_first future_account 1 (Num 1200) None) = Inr ()"
    by (simp add: withdraw_first_def latest_future replay_future float_eval)
  from w f have "withdraw_first future_account 1 (Num 1200) None
      \<noteq> withdraw future_account 1 (Num 1200) None"
    by (metis Inl_Inr_False fst_conv)
  with init_opened deposit_future w f show ?thesis by simp
qed

text \<open>No timestamp passed, on the freshly opened account at clock 1.\<close>

theorem redefinitions_agree_witness:
  "transactions opened_account \<noteq> []
   \<and> list_all (\<lambda>tx. timestamp tx \<le> 1) (transactions opened_account)
   \<and> withdraw_first opened_account 1 (Num 300) None = withdraw opened_account 1 (Num 300) None
   \<and> buy_first opened_account 1 ''AAPL'' (Num 2) None = (Inr (), bought_account)"
proof -
  have h: "transactions opened_account \<noteq> []
     \<and> (\<forall>tx\<in>set (transactions opened_account). timestamp tx \<le> 1)"
    by (simp add: opened_account_def)
  then have "None \<noteq> (None :: datetime option)
     \<or> (transactions opened_account \<noteq> [] \<and> (\<forall>tx\<in>set (transactions opened_account). timestamp tx \<le> 1))"
    by simp
  from redefinitions_agree [OF this, of "Num 300" "''AAPL''" "Num 2"] h buy_opened
  show ?thesis by (simp add: list_all_iff)
qed

subsection \<open>Failing calls\<close>

text \<open>
  Claim C1. Whatever the account, the symbol, the clock and the timestamp, the \<open>sell\<close> in
  force called with a positive quantity (or any other that passes the test
  \<open>quantity <= 0\<close>) raises an \<open>AttributeError\<close>, from looking a key up in the cash
  component of the replay, and leaves the account, hence its log, as it was: no sell
  transaction is ever appended.
\<close>

theorem sell_always_raises:
  assumes "\<not> fle qty (Num 0)"
  shows "sell a now symb qty ts = (Inl AttributeError, a)"
  using assms by (simp add: sell_def Let_def split: prod.splits)

theorem sell_always_raises_witness:
  "\<not> fle (Num 1) (Num 0)
   \<and> sell demo_account 5 ''AAPL'' (Num 1) None = (Inl AttributeError, demo_account)"
proof -
  have h: "\<not> fle (Num 1) (Num 0)" by (simp add: fle_def)
  from h sell_always_raises [OF h, of demo_account 5 "''AAPL''" None] show ?thesis by simp
qed

text \<open>
  Claim C7. A call of \<open>deposit\<close>, \<open>withdraw\<close>, \<open>buy\<close> or \<open>sell\<close> that raises leaves the
  account exactly as it found it: every check comes before the append.
\<close>

theorem failed_call_leaves_account:
  assumes "fst (step a c) = Inl e"
  shows "snd (step a c) = a"
proof (cases c)
  case (Pair now k)
  show ?thesis
  proof (cases k)
    case (CallDeposit amount ts)
    with Pair assms show ?thesis
      by (simp add: deposit_def Let_def split: if_splits)
  next
    case (CallWithdraw amount ts)
    with Pair assms show ?thesis
      by (simp add: withdraw_def Let_def split: if_splits prod.splits)
  next
    case (CallBuy symb qty ts)
    with Pair assms show ?thesis
      by (simp add: buy_def Let_def split: if_splits prod.splits sum.splits)
  next
    case (CallSell symb qty ts)
    with Pair assms show ?thesis
      by (simp add: sell_def Let_def split: if_splits prod.splits sum.splits)
  qed
qed

text \<open>The scenario of the specification: cash 100, withdrawing 1000 fails, cash stays 100.\<close>

theorem failed_call_leaves_account_witness:
  "fst (step demo_account (7, CallWithdraw (Num 1000) None)) = Inl InsufficientFundsError
   \<and> snd (step demo_account (7, CallWithdraw (Num 1000) None)) = demo_account
   \<and> cash_balance demo_account (Some (Aware 7)) = (Inr (Num 100), demo_account)"
proof -
  have f: "fst (step demo_account (7, CallWithdraw (Num 1000) None)) = Inl InsufficientFundsError"
    by (simp add: withdraw_def demo_cash float_eval)
  have c: "cash_balance demo_account (Some (Aware 7)) = (Inr (Num 100), demo_account)"
    by (simp add: cash_balance_def or_latest_def demo_cash)
  from f c failed_call_leaves_account [OF f] show ?thesis by simp
qed

text \<open>
  Claim C8. Buying a positive quantity (or any other that passes the test
  \<open>quantity <= 0\<close>) of a symbol that is not a key of the price table raises
  \<open>InvalidSymbolError\<close> and leaves the account, hence its log, unchanged.
\<close>

theorem buy_unknown_symbol:
  assumes "symb \<notin> set (map fst prices)" and "\<not> fle qty (Num 0)"
  shows "buy a now symb qty ts = (Inl InvalidSymbolError, a)"
proof -
  from assms(1) have "map_of prices symb = None"
    by (simp add: map_of_eq_None_iff)
  with assms(2) show ?thesis
    by (simp add: buy_def get_share_price_def)
qed

theorem buy_unknown_symbol_witness:
  "''MSFT'' \<notin> set (map fst prices) \<and> \<not> fle (Num 1) (Num 0)
   \<and> buy demo_account 7 ''MSFT'' (Num 1) None = (Inl InvalidSymbolError, demo_account)"
proof -
  have h: "''MSFT'' \<notin> set (map fst prices)" by (simp add: prices_def)
  have q: "\<not> fle (Num 1) (Num 0)" by (simp add: fle_def)
  from h q buy_unknown_symbol [OF h q, of demo_account 7 None] show ?thesis by simp
qed

subsection \<open>The history query\<close>

text \<open>With bounds that are unset or aware, \<open>transaction_history\<close> returns the recorded
  transactions dated within the bounds, both ends included, in recorded order.\<close>

lemma history_loop_aware:
  "history_loop (map_option Aware since) (map_option Aware until) txs result =
     Inr (result @ filter (\<lambda>tx. (case since of None \<Rightarrow> True | Some s \<Rightarrow> s \<le> timestamp tx)
                          \<and> (case until of None \<Rightarrow> True | Some u \<Rightarrow> timestamp tx \<le> u)) txs)"
  by (induction txs arbitrary: result) (auto split: option.splits bool.splits)

lemma transaction_history_aware:
  "transaction_history a (map_option Aware since) (map_option Aware until) =
     (Inr (filter (\<lambda>tx. (case since of None \<Rightarrow> True | Some s \<Rightarrow> s \<le> timestamp tx)
                      \<and> (case until of None \<Rightarrow> True | Some u \<Rightarrow> timestamp tx \<le> u))
             (transactions a)), a)"
  by (simp add: transaction_history_def history_loop_aware)

text \<open>
  Claim C9. With a naive \<open>since\<close> the query raises \<open>TypeError\<close> at the first comparison
  instead of returning the transactions within the bounds: unlike the replay, which reads
  a naive cutoff as UTC (here \<open>cash_balance\<close> answers 100), \<open>transaction_history\<close>
  compares the stored aware timestamps with the bound as it came.
\<close>

theorem naive_bound_raises:
  "transaction_history demo_account (Some (Naive 0)) None = (Inl TypeError, demo_account)
   \<and> transaction_history demo_account (Some (Aware 0)) None
       = (Inr (transactions demo_account), demo_account)
   \<and> cash_balance demo_account (Some (Naive 0)) = (Inr (Num 100), demo_account)"
  by (simp add: transaction_history_def demo_account_def cash_balance_def or_latest_def
      apply_transactions_up_to_def moves_shares_def float_eval)

subsection \<open>Queries do not write\<close>

text \<open>
  Claim C10. Every query (cash balance, holdings, portfolio value, profit and loss,
  transaction history) leaves the account as it was, and asked again with the same
  arguments on the account it left, gives the same answer.
\<close>

theorem queries_repeatable:
  "snd (cash_balance a as_of) = a
   \<and> cash_balance (snd (cash_balance a as_of)) as_of = cash_balance a as_of
   \<and> snd (holdings a as_of) = a
   \<and> holdings (snd (holdings a as_of)) as_of = holdings a as_of
   \<and> snd (portfolio_value a as_of) = a
   \<and> portfolio_value (snd (portfolio_value a as_of)) as_of = portfolio_value a as_of
   \<and> snd (profit_loss a as_of) = a
   \<and> profit_loss (snd (profit_loss a as_of)) as_of = profit_loss a as_of
   \<and> snd (transaction_history a since until) = a
   \<and> transaction_history (snd (transaction_history a since until)) since until
       = transaction_history a since until"
proof -
  have c: "snd (cash_balance a as_of) = a"
    by (simp add: cash_balance_def split: sum.splits prod.splits)
  have h: "snd (holdings a as_of) = a"
    by (simp add: holdings_def split: sum.splits prod.splits)
  have p: "snd (portfolio_value a as_of) = a"
    by (simp add: portfolio_value_def split: sum.splits prod.splits)
  obtain r where pv: "portfolio_value a as_of = (r, a)"
    using p by (cases "portfolio_value a as_of") simp
  have l: "snd (profit_loss a as_of) = a"
    by (cases r) (simp_all add: profit_loss_def pv)
  have t: "snd (transaction_history a since until) = a"
    by (simp add: transaction_history_def)
  from c h p l t show ?thesis by simp
qed

end
